theory Spec2Isabelle
  imports Main
begin

section \<open>Values, actions and faults\<close>

text \<open>
  The library is TypeScript. An action is \<^verbatim>\<open>{ type: string } & Record<string, any>\<close>: a
  string tag and any further properties. The properties are kept as an association list
  from property names to JavaScript values; reading a property that is absent gives
  \<^verbatim>\<open>undefined\<close>, as property access does in JavaScript. Numbers are restricted to
  integers: no function of the library computes with them.
\<close>

datatype jsval =
    JUndefined
  | JNull
  | JBoolean bool
  | JNumber int
  | JString string
  | JObject "(string \<times> jsval) list"

record action =
  type :: string
  props :: "(string \<times> jsval) list"

text \<open>A thrown value. The library itself only throws \<^verbatim>\<open>new Error(message)\<close>.\<close>

datatype exn = Error string

text \<open>\<^verbatim>\<open>action.name\<close>: property access on the action object.\<close>

definition property :: "action \<Rightarrow> string \<Rightarrow> jsval" where
  "property a k = (case map_of (props a) k of None \<Rightarrow> JUndefined | Some v \<Rightarrow> v)"

section \<open>The store (core/store.ts)\<close>

text \<open>
  \<^verbatim>\<open>createStore\<close> returns five closures over three local variables,
  \<^verbatim>\<open>currentState\<close>, \<^verbatim>\<open>storeName\<close> and \<^verbatim>\<open>listeners\<close>. The record below is
  that closure environment; each closure becomes a function that takes the environment
  and returns the updated one.

  A listener is a JavaScript function \<^verbatim>\<open>() => void\<close>. Two things matter about it:
  its identity (\<^verbatim>\<open>indexOf\<close> compares listeners with \<^verbatim>\<open>===\<close>), which is a natural
  number here, and what calling it does. A listener may call back into the store
  (dispatch, subscribe, unsubscribe) and may throw, so calling the listener \<open>l\<close> is a
  function \<open>call l\<close> from the store's variables to the updated variables and the thrown
  value, if any. The table \<open>call\<close> of all listeners' behaviours is a parameter of every
  operation that notifies. A listener's effect is a function of the store's variables, and
  a listener returns or throws: one that never returns is outside the model.

  The reducer \<^verbatim>\<open>(currentState: S, action: Action) => S\<close> is a parameter as well; it
  either returns the next state (\<open>Inr\<close>) or throws (\<open>Inl\<close>).
\<close>

type_synonym lid = nat

record 's store_state =
  currentState :: 's
  storeName :: string
  listeners :: "lid list"

type_synonym 's reducer = "'s \<Rightarrow> action \<Rightarrow> exn + 's"

type_synonym 's callbacks = "lid \<Rightarrow> 's store_state \<Rightarrow> 's store_state \<times> exn option"

text \<open>
  What a call of \<^verbatim>\<open>dispatch\<close> or \<^verbatim>\<open>setStoreName\<close> leaves behind: the store's
  variables, the listeners the call invoked (in the order of their invocation), and the
  exception that left the call, if one did.
\<close>

record 's outcome =
  store :: "'s store_state"
  invoked :: "lid list"
  thrown :: "exn option"

definition getState :: "'s store_state \<Rightarrow> 's" where
  "getState st = currentState st"

definition getStoreName :: "'s store_state \<Rightarrow> string" where
  "getStoreName st = storeName st"

text \<open>
  \<^verbatim>\<open>listeners.forEach(listener => listener())\<close>. \<^verbatim>\<open>Array.prototype.forEach\<close> reads
  the length of the array once, then visits the indices \<open>0 .. len - 1\<close> of the array
  as it is when each index is reached: an index that is no longer in the array is passed
  over, an element appended meanwhile is beyond \<open>len\<close>. \<open>forEach call k n st\<close> is the
  loop at index \<open>k\<close> with \<open>n\<close> indices left. An exception of a listener ends the loop.
\<close>

fun forEach :: "'s callbacks \<Rightarrow> nat \<Rightarrow> nat \<Rightarrow> 's store_state \<Rightarrow> 's outcome" where
  "forEach call k 0 st = \<lparr>store = st, invoked = [], thrown = None\<rparr>"
| "forEach call k (Suc n) st =
     (if k < length (listeners st) then
        (case call (listeners st ! k) st of
           (st', Some e) \<Rightarrow> \<lparr>store = st', invoked = [listeners st ! k], thrown = Some e\<rparr>
         | (st', None) \<Rightarrow>
             (let out = forEach call (Suc k) n st'
              in out\<lparr>invoked := (listeners st ! k) # invoked out\<rparr>))
      else forEach call (Suc k) n st)"

definition listeners_forEach :: "'s callbacks \<Rightarrow> 's store_state \<Rightarrow> 's outcome" where
  "listeners_forEach call st = forEach call 0 (length (listeners st)) st"

definition setStoreName :: "'s callbacks \<Rightarrow> 's store_state \<Rightarrow> string \<Rightarrow> 's outcome" where
  "setStoreName call st newName = listeners_forEach call (st\<lparr>storeName := newName\<rparr>)"

text \<open>
  \<^verbatim>\<open>dispatch\<close>. The guard \<^verbatim>\<open>typeof action.name === 'string'\<close> is the case
  \<open>JString\<close>; every other value of the property falls through to the last two statements
  of the function, as an action with another tag does. \<open>applyReducer\<close> is these two
  statements: the assignment to \<^verbatim>\<open>currentState\<close> happens only when the reducer has
  returned, and the listeners are notified after it.
\<close>

definition applyReducer :: "'s reducer \<Rightarrow> 's callbacks \<Rightarrow> 's store_state \<Rightarrow> action \<Rightarrow> 's outcome" where
  "applyReducer reducer call st action =
     (case reducer (currentState st) action of
        Inl e \<Rightarrow> \<lparr>store = st, invoked = [], thrown = Some e\<rparr>
      | Inr s \<Rightarrow> listeners_forEach call (st\<lparr>currentState := s\<rparr>))"

definition dispatch :: "'s reducer \<Rightarrow> 's callbacks \<Rightarrow> 's store_state \<Rightarrow> action \<Rightarrow> 's outcome" where
  "dispatch reducer call st action =
     (if type action = ''@@RENAME_STORE'' then
        (case property action ''name'' of
           JString newName \<Rightarrow> setStoreName call st newName
         | _ \<Rightarrow> applyReducer reducer call st action)
      else applyReducer reducer call st action)"

text \<open>
  \<^verbatim>\<open>listeners.indexOf(listener)\<close>: the first index that holds the listener, or \<open>-1\<close>.
  \<^verbatim>\<open>listeners.splice(index, 1)\<close> removes \<open>count\<close> elements from \<open>index\<close> on; a
  negative index counts from the end of the array.
\<close>

fun indexOf :: "'a list \<Rightarrow> 'a \<Rightarrow> int" where
  "indexOf [] v = - 1"
| "indexOf (x # xs) v =
     (if x = v then 0 else (let i = indexOf xs v in if i = - 1 then - 1 else i + 1))"

definition splice_arr :: "'a list \<Rightarrow> int \<Rightarrow> nat \<Rightarrow> 'a list" where
  "splice_arr xs index count =
     (let len = int (length xs);
          start = (if index < 0 then max (len + index) 0 else min index len)
      in take (nat start) xs @ drop (nat start + count) xs)"

text \<open>
  \<^verbatim>\<open>subscribe\<close> appends the listener and returns a closure over the listener;
  \<open>unsubscribe listener\<close> is that closure, with the boolean it returns.
\<close>

definition subscribe :: "'s store_state \<Rightarrow> lid \<Rightarrow> 's store_state" where
  "subscribe st listener = st\<lparr>listeners := listeners st @ [listener]\<rparr>"

definition unsubscribe :: "lid \<Rightarrow> 's store_state \<Rightarrow> 's store_state \<times> bool" where
  "unsubscribe listener st =
     (let index = indexOf (listeners st) listener
      in if index = - 1 then (st, False)
         else (st\<lparr>listeners := splice_arr (listeners st) index 1\<rparr>, True))"

text \<open>
  \<^verbatim>\<open>createStore(initialState, reducer, initialName = "default")\<close>. The optional
  parameter is an \<open>option\<close>. The function returns the store, or the exception that the
  dispatch of \<^verbatim>\<open>{ type: '@@INIT' }\<close> threw.
\<close>

definition createStore ::
  "'s callbacks \<Rightarrow> 's \<Rightarrow> 's reducer \<Rightarrow> string option \<Rightarrow> exn + 's store_state" where
  "createStore call initialState reducer initialName =
     (let out = dispatch reducer call
                  \<lparr>currentState = initialState,
                   storeName = (case initialName of None \<Rightarrow> ''default'' | Some n \<Rightarrow> n),
                   listeners = []\<rparr>
                  \<lparr>type = ''@@INIT'', props = []\<rparr>
      in case thrown out of Some e \<Rightarrow> Inl e | None \<Rightarrow> Inr (store out))"

text \<open>
  The object that \<^verbatim>\<open>createStore\<close> returns, of the type \<^verbatim>\<open>Store<S>\<close> of
  core/types.ts: the five closures, here applied to the store's variables as they are when
  the object is used. \<open>subscribe_m\<close> gives the variables after the registration; the
  closure it returns in TypeScript is \<open>unsubscribe\<close> of the same listener.
\<close>

record 's Store =
  getState_m :: "unit \<Rightarrow> 's"
  dispatch_m :: "action \<Rightarrow> 's outcome"
  subscribe_m :: "lid \<Rightarrow> 's store_state"
  getStoreName_m :: "unit \<Rightarrow> string"
  setStoreName_m :: "string \<Rightarrow> 's outcome"

definition Store_of :: "'s reducer \<Rightarrow> 's callbacks \<Rightarrow> 's store_state \<Rightarrow> 's Store" where
  "Store_of reducer call st =
     \<lparr>getState_m = (\<lambda>_. getState st),
      dispatch_m = dispatch reducer call st,
      subscribe_m = subscribe st,
      getStoreName_m = (\<lambda>_. getStoreName st),
      setStoreName_m = setStoreName call st\<rparr>"

section \<open>The React bindings (react/context.ts, react/Provider.tsx, react/hooks.ts)\<close>

text \<open>
  React itself is outside the repository. Two of its primitives are used and are modelled
  by their documented results. \<^verbatim>\<open>useContext(StoreContext)\<close> gives the value of the
  nearest enclosing \<^verbatim>\<open>StoreContext.Provider\<close>, or the default of
  \<^verbatim>\<open>createContext(null)\<close> when there is none: the position of a component in the tree
  is the list of the values of its enclosing providers, innermost first.
  \<^verbatim>\<open>useSyncExternalStore(subscribe, getSnapshot, getServerSnapshot)\<close> returns the
  current snapshot; that React registers a listener of its own through \<open>subscribe\<close> and
  renders again later is not part of the model.
\<close>

definition useContext :: "'h list \<Rightarrow> 'h option" where
  "useContext scope = (case scope of [] \<Rightarrow> None | v # _ \<Rightarrow> Some v)"

definition useSyncExternalStore :: "'sub \<Rightarrow> (unit \<Rightarrow> 't) \<Rightarrow> (unit \<Rightarrow> 't) \<Rightarrow> 't" where
  "useSyncExternalStore subscribe_fn getSnapshot getServerSnapshot = getSnapshot ()"

text \<open>\<^verbatim>\<open>Provider\<close> renders its children below one more provider of the context.\<close>

definition Provider :: "'h \<Rightarrow> 'h list \<Rightarrow> 'h list" where
  "Provider store_obj scope = store_obj # scope"

definition useStoreContext :: "'h list \<Rightarrow> exn + 'h" where
  "useStoreContext scope =
     (case useContext scope of
        None \<Rightarrow> Inl (Error ''useStoreContext must be used within a StoreProvider'')
      | Some store_obj \<Rightarrow> Inr store_obj)"

text \<open>
  The hooks. An optional parameter is an \<open>option\<close>; the default equality is
  \<^verbatim>\<open>(a, b) => a === b\<close>. Neither hook uses \<open>equalityFn\<close> after taking it.
\<close>

definition defaultEqualityFn :: "'t \<Rightarrow> 't \<Rightarrow> bool" where
  "defaultEqualityFn a b = (a = b)"

definition useSelector ::
  "'s Store list \<Rightarrow> ('s \<Rightarrow> 't) \<Rightarrow> ('t \<Rightarrow> 't \<Rightarrow> bool) option \<Rightarrow> exn + 't" where
  "useSelector scope selector equalityFn =
     (case useStoreContext scope of
        Inl e \<Rightarrow> Inl e
      | Inr store_obj \<Rightarrow>
          Inr (useSyncExternalStore (subscribe_m store_obj)
                 (\<lambda>_. selector (getState_m store_obj ()))
                 (\<lambda>_. selector (getState_m store_obj ()))))"

definition useDispatch :: "'s Store list \<Rightarrow> exn + (action \<Rightarrow> 's outcome)" where
  "useDispatch scope =
     (case useStoreContext scope of
        Inl e \<Rightarrow> Inl e
      | Inr store_obj \<Rightarrow> Inr (dispatch_m store_obj))"

definition useStore :: "'s Store list \<Rightarrow> exn + 's" where
  "useStore scope =
     (case useStoreContext scope of
        Inl e \<Rightarrow> Inl e
      | Inr store_obj \<Rightarrow>
          Inr (useSyncExternalStore (subscribe_m store_obj)
                 (\<lambda>_. getState_m store_obj ())
                 (\<lambda>_. getState_m store_obj ())))"

section \<open>The accessor factory (zustand-style.ts)\<close>

text \<open>
  \<^verbatim>\<open>create(initialState, reducer, storeName = "zustand-store")\<close> creates one store and
  returns a hook that closes over it. Without a selector the hook's snapshot is the state
  itself, cast to the result type; the two result types are kept apart as a sum (\<open>Inl\<close>
  the whole state, \<open>Inr\<close> the selected value). The store object never leaves
  \<^verbatim>\<open>create\<close>, so nothing can dispatch to it after its creation and the state the hook
  reads is the state the store was created with; the hook therefore holds the store as
  \<^verbatim>\<open>createStore\<close> returned it.
\<close>

definition create ::
  "'s callbacks \<Rightarrow> 's \<Rightarrow> 's reducer \<Rightarrow> string option \<Rightarrow>
     exn + (('s \<Rightarrow> 't) option \<Rightarrow> ('t \<Rightarrow> 't \<Rightarrow> bool) option \<Rightarrow> 's + 't)" where
  "create call initialState reducer storeName_arg =
     (case createStore call initialState reducer
             (Some (case storeName_arg of None \<Rightarrow> ''zustand-store'' | Some n \<Rightarrow> n)) of
        Inl e \<Rightarrow> Inl e
      | Inr st \<Rightarrow>
          Inr (\<lambda>selector equalityFn.
            useSyncExternalStore (subscribe_m (Store_of reducer call st))
              (\<lambda>_. case selector of
                      Some f \<Rightarrow> Inr (f (getState_m (Store_of reducer call st) ()))
                    | None \<Rightarrow> Inl (getState_m (Store_of reducer call st) ()))
              (\<lambda>_. case selector of
                      Some f \<Rightarrow> Inr (f (getState_m (Store_of reducer call st) ()))
                    | None \<Rightarrow> Inl (getState_m (Store_of reducer call st) ()))))"

section \<open>Clients and concrete inputs\<close>

text \<open>
  A client that dispatches a list of actions one after the other, going on after a
  dispatch that threw (as a caller that catches the exception would): the list of the
  store's variables before the first dispatch and after each one.
\<close>

fun dispatchAll ::
  "'s reducer \<Rightarrow> 's callbacks \<Rightarrow> 's store_state \<Rightarrow> action list \<Rightarrow> 's store_state list" where
  "dispatchAll reducer call st [] = [st]"
| "dispatchAll reducer call st (a # as) =
     st # dispatchAll reducer call (store (dispatch reducer call st a)) as"

text \<open>
  The name a well-formed rename action carries: the tag is \<^verbatim>\<open>'@@RENAME_STORE'\<close> and the
  property \<^verbatim>\<open>name\<close> is a string. \<open>None\<close> for every other action.
\<close>

definition renameTarget :: "action \<Rightarrow> string option" where
  "renameTarget a =
     (if type a = ''@@RENAME_STORE'' then
        (case property a ''name'' of JString n \<Rightarrow> Some n | _ \<Rightarrow> None)
      else None)"

text \<open>The counter of the README: state \<^verbatim>\<open>{ count: 0, name: 'John' }\<close>.\<close>

record counter =
  count :: int
  name :: string

definition john :: counter where
  "john = \<lparr>count = 0, name = ''John''\<rparr>"

definition counterReducer :: "counter reducer" where
  "counterReducer state action =
     (if type action = ''INCREMENT'' then Inr (state\<lparr>count := count state + 1\<rparr>)
      else Inr state)"

text \<open>
  A reducer that knows \<^verbatim>\<open>'INCREMENT'\<close> and \<^verbatim>\<open>'@@INIT'\<close> and throws on every other
  tag, and one that throws on every action.
\<close>

definition strictReducer :: "counter reducer" where
  "strictReducer state action =
     (if type action = ''INCREMENT'' then Inr (state\<lparr>count := count state + 1\<rparr>)
      else if type action = ''@@INIT'' then Inr state
      else Inl (Error ''Unknown action''))"

definition faultyReducer :: "counter reducer" where
  "faultyReducer state action = Inl (Error ''reducer failed'')"

definition increment :: action where
  "increment = \<lparr>type = ''INCREMENT'', props = []\<rparr>"

definition renameX :: action where
  "renameX = \<lparr>type = ''@@RENAME_STORE'', props = [(''name'', JString ''x'')]\<rparr>"

definition renameNoName :: action where
  "renameNoName = \<lparr>type = ''@@RENAME_STORE'', props = []\<rparr>"

definition renameNumber :: action where
  "renameNumber = \<lparr>type = ''@@RENAME_STORE'', props = [(''name'', JNumber 5)]\<rparr>"

text \<open>
  Listeners that do nothing to the store, and a table in which the listener \<open>l\<close>
  calls its own unsubscribe closure when it is notified while every other listener does
  nothing.
\<close>

definition quiet :: "'s callbacks" where
  "quiet l st = (st, None)"

definition oneShot :: "lid \<Rightarrow> 's callbacks" where
  "oneShot l l' st = (if l' = l then (fst (unsubscribe l st), None) else (st, None))"

text \<open>
  A table in which the listener \<open>l\<close> subscribes the listener \<open>m\<close> whenever it is
  notified, while every other listener does nothing.
\<close>

definition recruiting :: "lid \<Rightarrow> lid \<Rightarrow> 's callbacks" where
  "recruiting l m l' st = (if l' = l then (subscribe st m, None) else (st, None))"

text \<open>The counter's store after \<^verbatim>\<open>createStore\<close>, with the listeners given.\<close>

definition counterStore :: "lid list \<Rightarrow> counter store_state" where
  "counterStore ls = \<lparr>currentState = john, storeName = ''default'', listeners = ls\<rparr>"

text \<open>
  Three conditions on the listeners' behaviours. \<open>leaves_state\<close>: no listener changes the
  state or the name of the store (it neither dispatches nor renames). \<open>well_behaved\<close>:
  the listeners of the list never throw and never remove an entry from the list of
  listeners; they may subscribe further listeners, which \<^verbatim>\<open>push\<close> appends.
  \<open>leaves_store\<close>: no listener changes any variable of the store.
\<close>

definition leaves_state :: "'s callbacks \<Rightarrow> bool" where
  "leaves_state call =
     (\<forall>l s. currentState (fst (call l s)) = currentState s
          \<and> storeName (fst (call l s)) = storeName s)"

definition well_behaved :: "'s callbacks \<Rightarrow> lid list \<Rightarrow> bool" where
  "well_behaved call ls =
     (\<forall>l\<in>set ls. \<forall>s. (\<exists>ys. listeners (fst (call l s)) = listeners s @ ys)
                        \<and> snd (call l s) = None)"


section \<open>The notification pass\<close>

lemma forEach_frame:
  assumes "leaves_state call"
  shows "currentState (store (forEach call k n st)) = currentState st
       \<and> storeName (store (forEach call k n st)) = storeName st"
  using assms
proof (induction n arbitrary: k st)
  case 0
  then show ?case by simp
next
  case (Suc n)
  show ?case
  proof (cases "k < length (listeners st)")
    case False
    then show ?thesis using Suc by simp
  next
    case True
    obtain st' e where c: "call (listeners st ! k) st = (st', e)"
      by (cases "call (listeners st ! k) st")
    have fr: "currentState st' = currentState st \<and> storeName st' = storeName st"
      using Suc.prems c unfolding leaves_state_def by (metis fst_conv)
    show ?thesis
    proof (cases e)
      case None
      then show ?thesis
        using True c fr Suc.IH[OF Suc.prems, of "Suc k" st'] by (simp add: Let_def)
    next
      case (Some x)
      then show ?thesis using True c fr by simp
    qed
  qed
qed

lemma forEach_pass:
  assumes "well_behaved call xs"
    and "listeners st = xs @ zs"
    and "k + n = length xs"
  shows "invoked (forEach call k n st) = drop k xs
       \<and> thrown (forEach call k n st) = None
       \<and> (\<exists>zs'. listeners (store (forEach call k n st)) = xs @ zs')"
  using assms
proof (induction n arbitrary: k st zs)
  case 0
  then show ?case by simp
next
  case (Suc n)
  have lt: "k < length xs" using Suc.prems(3) by simp
  then have lt': "k < length (listeners st)" using Suc.prems(2) by simp
  have at: "listeners st ! k = xs ! k" using lt Suc.prems(2) by (simp add: nth_append)
  obtain st' e where c: "call (xs ! k) st = (st', e)"
    by (cases "call (xs ! k) st")
  have mem: "xs ! k \<in> set xs" using lt by simp
  obtain ys where wb: "listeners st' = listeners st @ ys" and ne: "e = None"
    using Suc.prems(1) mem c unfolding well_behaved_def by (metis fst_conv snd_conv)
  have ih: "invoked (forEach call (Suc k) n st') = drop (Suc k) xs
       \<and> thrown (forEach call (Suc k) n st') = None
       \<and> (\<exists>zs'. listeners (store (forEach call (Suc k) n st')) = xs @ zs')"
    using Suc.IH[of st' "zs @ ys" "Suc k"] Suc.prems wb by simp
  show ?case using lt lt' at c ne ih by (simp add: Let_def Cons_nth_drop_Suc)
qed



lemma listeners_forEach_frame:
  "leaves_state call \<Longrightarrow>
     currentState (store (listeners_forEach call st)) = currentState st
   \<and> storeName (store (listeners_forEach call st)) = storeName st"
  unfolding listeners_forEach_def by (rule forEach_frame)

lemma listeners_forEach_pass:
  "well_behaved call (listeners st) \<Longrightarrow>
     invoked (listeners_forEach call st) = listeners st
   \<and> thrown (listeners_forEach call st) = None
   \<and> (\<exists>zs. listeners (store (listeners_forEach call st)) = listeners st @ zs)"
  unfolding listeners_forEach_def
  using forEach_pass[of call "listeners st" st "[]" 0 "length (listeners st)"] by simp



lemma dispatch_rename: "renameTarget a = Some n \<Longrightarrow> dispatch reducer call st a = setStoreName call st n"
  unfolding renameTarget_def dispatch_def by (auto split: if_splits jsval.splits)

lemma dispatch_other: "renameTarget a = None \<Longrightarrow> dispatch reducer call st a = applyReducer reducer call st a"
  unfolding renameTarget_def dispatch_def by (auto split: if_splits jsval.splits)

section \<open>Removal of a listener\<close>

lemma indexOf_range:
  "indexOf xs v = - 1 \<or> (0 \<le> indexOf xs v \<and> indexOf xs v < int (length xs))"
  by (induction xs) (auto simp: Let_def)

lemma indexOf_absent: "(indexOf xs v = - 1) = (v \<notin> set xs)"
proof (induction xs)
  case Nil
  then show ?case by simp
next
  case (Cons x xs)
  have "indexOf xs v = - 1 \<or> 0 \<le> indexOf xs v" using indexOf_range[of xs v] by blast
  then show ?case using Cons by (auto simp: Let_def)
qed

lemma splice_arr_Cons:
  assumes "0 \<le> i" and "i < int (length xs)"
  shows "splice_arr (x # xs) (i + 1) 1 = x # splice_arr xs i 1"
proof -
  have a: "nat (i + 1) = Suc (nat i)" using assms by simp
  have b: "min (i + 1) (int (length (x # xs))) = i + 1" using assms by simp
  have c: "min i (int (length xs)) = i" using assms by simp
  have d: "\<not> i + 1 < 0" "\<not> i < 0" using assms by simp_all
  show ?thesis unfolding splice_arr_def Let_def using d by (simp only: b c a if_False) simp
qed

lemma splice_arr_indexOf: "v \<in> set xs \<Longrightarrow> splice_arr xs (indexOf xs v) 1 = remove1 v xs"
proof (induction xs)
  case Nil
  then show ?case by simp
next
  case (Cons x xs)
  show ?case
  proof (cases "x = v")
    case True
    then show ?thesis by (simp add: splice_arr_def)
  next
    case False
    then have m: "v \<in> set xs" using Cons.prems by simp
    then have nn: "indexOf xs v \<noteq> - 1" by (simp add: indexOf_absent)
    have r: "0 \<le> indexOf xs v \<and> indexOf xs v < int (length xs)"
      using indexOf_range[of xs v] nn by simp
    have ih: "splice_arr xs (indexOf xs v) 1 = remove1 v xs" using Cons.IH m by simp
    have ix: "indexOf (x # xs) v = indexOf xs v + 1" using False nn by (simp add: Let_def)
    show ?thesis
      using False ih splice_arr_Cons[of "indexOf xs v" xs x] r
      by (simp only: ix remove1.simps) simp
  qed
qed

lemma unsubscribe_eq:
  "unsubscribe l st = (st\<lparr>listeners := remove1 l (listeners st)\<rparr>, l \<in> set (listeners st))"
proof (cases "l \<in> set (listeners st)")
  case True
  then show ?thesis
    using splice_arr_indexOf[of l "listeners st"]
    unfolding unsubscribe_def Let_def by (simp add: indexOf_absent)
next
  case False
  then show ?thesis
    unfolding unsubscribe_def Let_def by (simp add: indexOf_absent remove1_idem)
qed

section \<open>Sequences of dispatches\<close>

lemma dispatchAll_length: "length (dispatchAll reducer call st as) = Suc (length as)"
  by (induction as arbitrary: st) simp_all

lemma dispatchAll_step:
  "i < length as \<Longrightarrow>
     dispatchAll reducer call st as ! Suc i =
       store (dispatch reducer call (dispatchAll reducer call st as ! i) (as ! i))"
proof (induction as arbitrary: st i)
  case Nil
  then show ?case by simp
next
  case (Cons a as)
  show ?case
  proof (cases i)
    case 0
    then show ?thesis by (cases as) simp_all
  next
    case (Suc j)
    then show ?thesis using Cons.IH[of j] Cons.prems by simp
  qed
qed

lemma dispatch_state:
  assumes "leaves_state call"
  shows "case renameTarget a of
           Some n \<Rightarrow> getState (store (dispatch reducer call st a)) = getState st
                     \<and> getStoreName (store (dispatch reducer call st a)) = n
         | None \<Rightarrow>
            (case reducer (getState st) a of
               Inr s' \<Rightarrow> getState (store (dispatch reducer call st a)) = s'
                        \<and> getStoreName (store (dispatch reducer call st a)) = getStoreName st
             | Inl e \<Rightarrow> getState (store (dispatch reducer call st a)) = getState st
                        \<and> getStoreName (store (dispatch reducer call st a)) = getStoreName st)"
proof (cases "renameTarget a")
  case None
  show ?thesis
  proof (cases "reducer (currentState st) a")
    case (Inl e)
    then show ?thesis using None
      by (simp add: dispatch_other applyReducer_def getState_def getStoreName_def)
  next
    case (Inr s')
    then show ?thesis
      using None listeners_forEach_frame[OF assms, of "st\<lparr>currentState := s'\<rparr>"]
      by (simp add: dispatch_other applyReducer_def getState_def getStoreName_def)
  qed
next
  case (Some n)
  then show ?thesis
    using listeners_forEach_frame[OF assms, of "st\<lparr>storeName := n\<rparr>"]
    by (simp add: dispatch_rename setStoreName_def getState_def getStoreName_def)
qed

section \<open>Facts about the concrete inputs\<close>

lemma oneShot_leaves_state: "leaves_state (oneShot l)"
  unfolding leaves_state_def oneShot_def by (simp add: unsubscribe_eq)

lemma quiet_leaves_state: "leaves_state quiet"
  unfolding leaves_state_def quiet_def by simp

lemma renameTarget_renameX: "renameTarget renameX = Some ''x''"
  by (simp add: renameTarget_def renameX_def property_def)

lemma renameTarget_increment: "renameTarget increment = None"
  by (simp add: renameTarget_def increment_def)


lemmas example_defs =
  counterStore_def john_def counterReducer_def strictReducer_def faultyReducer_def
  increment_def renameX_def renameNoName_def renameNumber_def quiet_def oneShot_def
  recruiting_def

lemmas store_defs =
  dispatch_def applyReducer_def setStoreName_def listeners_forEach_def property_def
  getState_def getStoreName_def subscribe_def unsubscribe_eq createStore_def

lemma quiet_well_behaved: "well_behaved quiet ls"
  unfolding well_behaved_def quiet_def by simp


lemma recruiting_well_behaved: "well_behaved (recruiting l m) ls"
  unfolding well_behaved_def recruiting_def subscribe_def by simp

lemma getState_subscribe: "getState (subscribe st l) = getState st"
  by (simp add: getState_def subscribe_def)

lemma getState_unsubscribe: "getState (fst (unsubscribe l st)) = getState st"
  by (simp add: getState_def unsubscribe_eq)

lemma remove1_member_count: "(l \<in> set (remove1 l xs)) = (2 \<le> count_list xs l)"
proof (induction xs)
  case Nil
  then show ?case by simp
next
  case (Cons x xs)
  have "(l \<in> set xs) = (1 \<le> count_list xs l)"
    using count_list_0_iff[of xs l] by auto
  then show ?case using Cons by auto
qed

lemma createStore_counter: "createStore quiet john counterReducer None = Inr (counterStore [])"
  by (simp add: example_defs store_defs)

section \<open>The claims\<close>

text \<open>
  Claim C1. For every store and every list of dispatched actions, the state after the
  \<open>i\<close>-th dispatch is the reducer's result on the state before it and the \<open>i\<close>-th action,
  unless that action is a well-formed rename; then the state is unchanged and the name of
  the store is the name the action carries. (Where the reducer throws, state and name are
  unchanged.) The listed actions are all the dispatches there are: the listeners may
  subscribe, unsubscribe or throw, but do not themselves dispatch or rename
  (\<open>leaves_state\<close>); a dispatch of a listener's would be a further element of the sequence.
\<close>

theorem dispatch_sequence_states:
  assumes "leaves_state call" and "i < length as"
  shows "case renameTarget (as ! i) of
           Some n \<Rightarrow>
             getState (dispatchAll reducer call st as ! Suc i) =
               getState (dispatchAll reducer call st as ! i)
             \<and> getStoreName (dispatchAll reducer call st as ! Suc i) = n
         | None \<Rightarrow>
            (case reducer (getState (dispatchAll reducer call st as ! i)) (as ! i) of
               Inr s' \<Rightarrow>
                 getState (dispatchAll reducer call st as ! Suc i) = s'
                 \<and> getStoreName (dispatchAll reducer call st as ! Suc i) =
                     getStoreName (dispatchAll reducer call st as ! i)
             | Inl e \<Rightarrow>
                 getState (dispatchAll reducer call st as ! Suc i) =
                   getState (dispatchAll reducer call st as ! i)
                 \<and> getStoreName (dispatchAll reducer call st as ! Suc i) =
                     getStoreName (dispatchAll reducer call st as ! i))"
  using dispatch_state[OF assms(1), where a = "as ! i" and reducer = reducer
      and st = "dispatchAll reducer call st as ! i"]
  by (simp only: dispatchAll_step[OF assms(2)])

text \<open>
  The scenario of the README's counter: three increments, then a rename to \<open>x\<close>, on a
  store with two listeners of which the first unsubscribes itself when notified.
\<close>

theorem dispatch_sequence_states_witness:
  "getState (dispatchAll counterReducer (oneShot 1) (counterStore [1, 2])
      [increment, increment, increment, renameX] ! 4) = \<lparr>count = 3, name = ''John''\<rparr>
   \<and> getState (dispatchAll counterReducer (oneShot 1) (counterStore [1, 2])
      [increment, increment, increment, renameX] ! 3) = \<lparr>count = 3, name = ''John''\<rparr>
   \<and> getStoreName (dispatchAll counterReducer (oneShot 1) (counterStore [1, 2])
      [increment, increment, increment, renameX] ! 4) = ''x''"
proof -
  have s3: "getState (dispatchAll counterReducer (oneShot 1) (counterStore [1, 2])
      [increment, increment, increment, renameX] ! 3) = \<lparr>count = 3, name = ''John''\<rparr>"
    by (simp add: example_defs store_defs)
  show ?thesis
    using dispatch_sequence_states[OF oneShot_leaves_state, where i = 3
      and as = "[increment, increment, increment, renameX]" and l1 = 1
      and reducer = counterReducer and st = "counterStore [1, 2]"] s3
    by (simp add: renameTarget_renameX)
qed

text \<open>
  Claim C2. \<^verbatim>\<open>createStore\<close> dispatches \<^verbatim>\<open>{ type: '@@INIT' }\<close> once, through
  \<open>dispatch\<close>, on the store that holds the initial state, the initial name and no
  listener, and returns the store this dispatch leaves: its state is the reducer's result
  \<open>s\<close> on the initial state and the init action, no listener is invoked and nothing is
  thrown. For a reducer that returns its state unchanged on that tag, \<open>s\<close> is the initial
  state. The state has the type \<open>'s\<close> of the reducer's results, which has no null or
  undefined value.
\<close>

theorem createStore_init:
  assumes "reducer initialState \<lparr>type = ''@@INIT'', props = []\<rparr> = Inr s"
  shows "createStore call initialState reducer initialName =
           Inr \<lparr>currentState = s,
                storeName = (case initialName of None \<Rightarrow> ''default'' | Some n \<Rightarrow> n),
                listeners = []\<rparr>
       \<and> dispatch reducer call
            \<lparr>currentState = initialState,
             storeName = (case initialName of None \<Rightarrow> ''default'' | Some n \<Rightarrow> n),
             listeners = []\<rparr>
            \<lparr>type = ''@@INIT'', props = []\<rparr> =
           \<lparr>store = \<lparr>currentState = s,
                storeName = (case initialName of None \<Rightarrow> ''default'' | Some n \<Rightarrow> n),
                listeners = []\<rparr>, invoked = [], thrown = None\<rparr>"
  using assms by (simp add: createStore_def dispatch_def applyReducer_def listeners_forEach_def)

theorem createStore_init_witness:
  "createStore (oneShot 1) john counterReducer None = Inr (counterStore [])
   \<and> getState (counterStore []) = john
   \<and> createStore quiet john strictReducer (Some ''counter-store'') =
       Inr \<lparr>currentState = john, storeName = ''counter-store'', listeners = []\<rparr>"
  using createStore_init[where reducer = counterReducer and initialState = john and s = john
          and call = "oneShot 1" and initialName = None]
        createStore_init[where reducer = strictReducer and initialState = john and s = john
          and call = quiet and initialName = "Some ''counter-store''"]
  by (simp add: counterReducer_def strictReducer_def counterStore_def getState_def)

text \<open>
  Claim C3, as amended. For every action that is not a well-formed rename: if the reducer
  throws on the current state and the action, \<open>dispatch\<close> throws the same exception,
  invokes no listener and leaves the store's variables as they were. A well-formed rename
  is never passed to the reducer: the dispatch does not depend on the reducer at all.
\<close>

theorem dispatch_fault:
  "(renameTarget a = None \<and> reducer (getState st) a = Inl e \<longrightarrow>
      dispatch reducer call st a = \<lparr>store = st, invoked = [], thrown = Some e\<rparr>)
   \<and> (renameTarget a \<noteq> None \<longrightarrow>
      dispatch reducer call st a = dispatch reducer' call st a)"
  by (auto simp: dispatch_other dispatch_rename applyReducer_def getState_def)

theorem dispatch_fault_witness:
  "dispatch strictReducer (oneShot 1) (counterStore [1, 2]) renameNoName =
     \<lparr>store = counterStore [1, 2], invoked = [], thrown = Some (Error ''Unknown action'')\<rparr>
   \<and> dispatch strictReducer (oneShot 1) (counterStore [1, 2]) renameX =
       dispatch faultyReducer (oneShot 1) (counterStore [1, 2]) renameX"
  using dispatch_fault[where a = renameNoName and reducer = strictReducer
          and st = "counterStore [1, 2]" and e = "Error ''Unknown action''" and call = "oneShot 1"]
        dispatch_fault[where a = renameX and reducer = strictReducer and reducer' = faultyReducer
          and st = "counterStore [1, 2]" and call = "oneShot 1"]
  by (simp add: renameTarget_def renameNoName_def renameX_def property_def strictReducer_def
        getState_def counterStore_def)

text \<open>
  The claim as stated fails for a well-formed rename: \<open>strictReducer\<close> throws on the tag
  \<^verbatim>\<open>'@@RENAME_STORE'\<close>, and the dispatch of the rename action to a store created with
  it throws nothing.
\<close>

theorem dispatch_fault_counterexample:
  "createStore quiet john strictReducer None = Inr (counterStore [])
   \<and> strictReducer (getState (counterStore [])) renameX = Inl (Error ''Unknown action'')
   \<and> thrown (dispatch strictReducer quiet (counterStore []) renameX) = None"
  by (simp add: example_defs store_defs)

text \<open>
  Claim C4, as amended. When the registered listeners never throw and never remove an
  entry from the list of listeners (they may subscribe further listeners), a dispatch of an
  action that is a well-formed rename or on which the reducer returns invokes the entries
  of the list as it was when the dispatch began, once each and in the order of the list,
  and throws nothing; what the listeners appended is not invoked in that pass.
  Unsubscribing removes the first entry of the listener only: the next dispatch invokes the
  remaining entries, and the listener is among them unless it had at most one entry.
\<close>

theorem notification_pass:
  assumes "well_behaved call (listeners st)"
    and "renameTarget a \<noteq> None \<or> (\<exists>s'. reducer (getState st) a = Inr s')"
  shows "invoked (dispatch reducer call st a) = listeners st
       \<and> thrown (dispatch reducer call st a) = None
       \<and> (\<exists>zs. listeners (store (dispatch reducer call st a)) = listeners st @ zs)
       \<and> invoked (dispatch reducer call (fst (unsubscribe l st)) a) = remove1 l (listeners st)
       \<and> (count_list (listeners st) l \<le> 1 \<longrightarrow>
            l \<notin> set (invoked (dispatch reducer call (fst (unsubscribe l st)) a)))"
proof -
  have pass: "invoked (dispatch reducer call st' a) = listeners st'
       \<and> thrown (dispatch reducer call st' a) = None
       \<and> (\<exists>zs. listeners (store (dispatch reducer call st' a)) = listeners st' @ zs)"
    if wb: "well_behaved call (listeners st')" and cs: "currentState st' = currentState st" for st'
  proof (cases "renameTarget a")
    case (Some n)
    then show ?thesis
      using listeners_forEach_pass[of call "st'\<lparr>storeName := n\<rparr>"] wb
      by (simp add: dispatch_rename setStoreName_def)
  next
    case None
    then obtain s' where "reducer (currentState st') a = Inr s'"
      using assms(2) cs by (auto simp: getState_def)
    then show ?thesis
      using None listeners_forEach_pass[of call "st'\<lparr>currentState := s'\<rparr>"] wb
      by (simp add: dispatch_other applyReducer_def)
  qed
  have wb': "well_behaved call (remove1 l (listeners st))"
    using assms(1) unfolding well_behaved_def by (meson notin_set_remove1)
  have one: "invoked (dispatch reducer call (fst (unsubscribe l st)) a) = remove1 l (listeners st)"
    using pass[of "fst (unsubscribe l st)"] wb' by (simp add: unsubscribe_eq)
  have "count_list (listeners st) l \<le> 1 \<Longrightarrow> l \<notin> set (remove1 l (listeners st))"
    by (simp add: remove1_member_count)
  then show ?thesis using pass[of st] assms(1) one by simp
qed

text \<open>
  The listener \<open>1\<close> subscribes the listener \<open>9\<close> whenever it is notified. With the list
  \<open>[1, 2, 1]\<close> it is invoked twice, and the pass does not reach the entries it appends.
\<close>

theorem notification_pass_witness:
  "invoked (dispatch counterReducer (recruiting 1 9) (counterStore [1, 2, 1]) increment) = [1, 2, 1]
   \<and> thrown (dispatch counterReducer (recruiting 1 9) (counterStore [1, 2, 1]) increment) = None
   \<and> listeners (store (dispatch counterReducer (recruiting 1 9) (counterStore [1, 2, 1]) increment))
       = [1, 2, 1, 9, 9]
   \<and> invoked (dispatch counterReducer (recruiting 1 9)
                (fst (unsubscribe 2 (counterStore [1, 2, 1]))) increment) = [1, 1]
   \<and> 2 \<notin> set (invoked (dispatch counterReducer (recruiting 1 9)
                          (fst (unsubscribe 2 (counterStore [1, 2, 1]))) increment))"
proof -
  have nf: "renameTarget increment \<noteq> None
            \<or> (\<exists>s'. counterReducer (getState (counterStore [1, 2, 1])) increment = Inr s')"
    by (simp add: counterReducer_def increment_def)
  have ls: "listeners (store (dispatch counterReducer (recruiting 1 9) (counterStore [1, 2, 1])
              increment)) = [1, 2, 1, 9, 9]"
    by (simp add: example_defs store_defs)
  show ?thesis
    using notification_pass[where call = "recruiting 1 9" and st = "counterStore [1, 2, 1]"
            and a = increment and reducer = counterReducer and l = 2,
            OF recruiting_well_behaved nf] ls
    by (simp add: counterStore_def)
qed

text \<open>
  The claim as stated fails twice. The pass reads the list as it is when each index is
  reached, not as it was when the dispatch began: the listener \<open>1\<close> unsubscribes itself
  when notified, the listener \<open>2\<close> moves to index \<open>0\<close> and is never invoked, although
  it was registered at that time. And a listener that was subscribed twice is still
  notified after one call of its unsubscribe closure.
\<close>

theorem notification_pass_counterexample:
  "listeners (subscribe (subscribe (counterStore []) 1) 2) = [1, 2]
   \<and> invoked (dispatch counterReducer (oneShot 1)
      (subscribe (subscribe (counterStore []) 1) 2) increment) = [1]
   \<and> thrown (dispatch counterReducer (oneShot 1)
      (subscribe (subscribe (counterStore []) 1) 2) increment) = None
   \<and> snd (unsubscribe 7 (subscribe (subscribe (counterStore []) 7) 7)) = True
   \<and> invoked (dispatch counterReducer quiet
      (fst (unsubscribe 7 (subscribe (subscribe (counterStore []) 7) 7))) increment) = [7]"
  by (simp add: example_defs store_defs)

text \<open>
  Claim C5, as amended. A call of the unsubscribe closure returns true exactly when the
  listener has an entry in the list, and removes the first such entry; it has no exception
  to throw. A second call right after the first returns true exactly when the listener had
  at least two entries. For a listener that was not registered before its subscription,
  the first call returns true and restores the store, the second returns false.
\<close>

theorem unsubscribe_twice:
  "snd (unsubscribe l st) = (l \<in> set (listeners st))
   \<and> fst (unsubscribe l st) = st\<lparr>listeners := remove1 l (listeners st)\<rparr>
   \<and> snd (unsubscribe l (fst (unsubscribe l st))) = (2 \<le> count_list (listeners st) l)
   \<and> (l \<notin> set (listeners st) \<longrightarrow>
        snd (unsubscribe l (subscribe st l))
      \<and> fst (unsubscribe l (subscribe st l)) = st
      \<and> \<not> snd (unsubscribe l (fst (unsubscribe l (subscribe st l)))))"
  by (simp add: unsubscribe_eq subscribe_def remove1_member_count remove1_append remove1_idem)

theorem unsubscribe_twice_witness:
  "snd (unsubscribe 2 (subscribe (counterStore [1]) 2))
   \<and> fst (unsubscribe 2 (subscribe (counterStore [1]) 2)) = counterStore [1]
   \<and> \<not> snd (unsubscribe 2 (fst (unsubscribe 2 (subscribe (counterStore [1]) 2))))"
  using unsubscribe_twice[where l = 2 and st = "counterStore [1]"]
  by (simp add: counterStore_def)

text \<open>
  The claim as stated fails for a listener that is subscribed twice: both calls of the
  closure return true.
\<close>

theorem unsubscribe_twice_counterexample:
  "snd (unsubscribe 7 (subscribe (subscribe (counterStore []) 7) 7)) = True
   \<and> snd (unsubscribe 7 (fst (unsubscribe 7 (subscribe (subscribe (counterStore []) 7) 7)))) = True"
  by (simp add: unsubscribe_eq subscribe_def counterStore_def)




text \<open>
  Claim C7. An action with the tag \<^verbatim>\<open>'@@RENAME_STORE'\<close> whose property \<^verbatim>\<open>name\<close> is
  absent or not a string is dispatched as any other action: the reducer is applied to it,
  its exception is thrown, or its result is stored and the listeners are notified. If the
  reducer returns the state unchanged (and no listener dispatches or renames), state and
  name are unchanged afterwards.
\<close>

theorem dispatch_malformed_rename:
  assumes "type a = ''@@RENAME_STORE''" and "\<forall>n. property a ''name'' \<noteq> JString n"
  shows "dispatch reducer call st a =
           (case reducer (currentState st) a of
              Inl e \<Rightarrow> \<lparr>store = st, invoked = [], thrown = Some e\<rparr>
            | Inr s \<Rightarrow> listeners_forEach call (st\<lparr>currentState := s\<rparr>))
       \<and> (leaves_state call \<and> reducer (getState st) a = Inr (getState st) \<longrightarrow>
            getState (store (dispatch reducer call st a)) = getState st
          \<and> getStoreName (store (dispatch reducer call st a)) = getStoreName st)"
proof -
  have t: "renameTarget a = None"
    using assms by (simp add: renameTarget_def split: jsval.splits)
  have "dispatch reducer call st a = applyReducer reducer call st a"
    using t by (rule dispatch_other)
  moreover have "leaves_state call \<Longrightarrow> reducer (getState st) a = Inr (getState st) \<Longrightarrow>
            getState (store (dispatch reducer call st a)) = getState st
          \<and> getStoreName (store (dispatch reducer call st a)) = getStoreName st"
    using dispatch_state[where call = call and a = a and reducer = reducer and st = st] t
    by simp
  ultimately show ?thesis by (simp add: applyReducer_def)
qed

theorem dispatch_malformed_rename_witness:
  "getState (store (dispatch counterReducer (oneShot 1) (counterStore [1, 2]) renameNoName)) = john
   \<and> getStoreName (store (dispatch counterReducer (oneShot 1) (counterStore [1, 2]) renameNoName))
       = ''default''
   \<and> getState (store (dispatch counterReducer quiet (counterStore [1, 2]) renameNumber)) = john
   \<and> invoked (dispatch counterReducer quiet (counterStore [1, 2]) renameNumber) = [1, 2]"
proof -
  have a: "type renameNoName = ''@@RENAME_STORE''" "\<forall>n. property renameNoName ''name'' \<noteq> JString n"
    by (simp_all add: renameNoName_def property_def)
  have b: "type renameNumber = ''@@RENAME_STORE''" "\<forall>n. property renameNumber ''name'' \<noteq> JString n"
    by (simp_all add: renameNumber_def property_def)
  have c: "counterReducer (getState (counterStore [1, 2])) renameNoName = Inr (getState (counterStore [1, 2]))"
     "counterReducer (getState (counterStore [1, 2])) renameNumber = Inr (getState (counterStore [1, 2]))"
    by (simp_all add: counterReducer_def renameNoName_def renameNumber_def)
  have d: "invoked (listeners_forEach quiet (counterStore [1, 2])) = [1, 2]"
    by (simp add: listeners_forEach_def quiet_def counterStore_def)
  have s1: "getState (store (dispatch counterReducer (oneShot 1) (counterStore [1, 2]) renameNoName))
              = getState (counterStore [1, 2])
          \<and> getStoreName (store (dispatch counterReducer (oneShot 1) (counterStore [1, 2]) renameNoName))
              = getStoreName (counterStore [1, 2])"
    using dispatch_malformed_rename[OF a, where reducer = counterReducer and call = "oneShot 1"
            and st = "counterStore [1, 2]"] c(1) oneShot_leaves_state[of 1]
    by blast
  note t2 = dispatch_malformed_rename[OF b, where reducer = counterReducer and call = quiet
            and st = "counterStore [1, 2]"]
  have s2a: "dispatch counterReducer quiet (counterStore [1, 2]) renameNumber =
              listeners_forEach quiet (counterStore [1, 2])"
    using conjunct1[OF t2] c(2) by (simp add: getState_def counterStore_def)
  have s2b: "getState (store (dispatch counterReducer quiet (counterStore [1, 2]) renameNumber))
              = getState (counterStore [1, 2])"
    using conjunct2[OF t2] c(2) quiet_leaves_state by blast
  have g: "getState (counterStore [1, 2]) = john" "getStoreName (counterStore [1, 2]) = ''default''"
    by (simp_all add: getState_def getStoreName_def counterStore_def)
  show ?thesis using s1 s2a s2b d g by simp
qed

text \<open>
  Claim C8. Below no provider, \<^verbatim>\<open>useStoreContext\<close> and the three hooks throw the
  configuration error and return nothing; \<^verbatim>\<open>useStoreContext\<close> throws only there.
\<close>

theorem hooks_without_provider:
  "useStoreContext [] = Inl (Error ''useStoreContext must be used within a StoreProvider'')
   \<and> useSelector [] selector equalityFn =
       Inl (Error ''useStoreContext must be used within a StoreProvider'')
   \<and> useDispatch [] = Inl (Error ''useStoreContext must be used within a StoreProvider'')
   \<and> useStore [] = Inl (Error ''useStoreContext must be used within a StoreProvider'')
   \<and> (\<exists>e. useStoreContext scope = Inl e) = (scope = [])"
  by (cases scope)
     (simp_all add: useStoreContext_def useContext_def useSelector_def useDispatch_def
        useStore_def)

text \<open>
  Claim C9. The hook that \<^verbatim>\<open>create\<close> returns reads the one store that \<^verbatim>\<open>create\<close>
  made with \<^verbatim>\<open>createStore\<close>: without a selector its snapshot is the state of that
  store, which is the snapshot of \<^verbatim>\<open>useStore\<close> below a provider of that store; with a
  selector it is the selector's value on that state, which is the snapshot of
  \<^verbatim>\<open>useSelector\<close> there.
\<close>

theorem create_accessor:
  assumes "create call initialState reducer storeName_arg = Inr hook"
  shows "\<exists>st. createStore call initialState reducer
                (Some (case storeName_arg of None \<Rightarrow> ''zustand-store'' | Some n \<Rightarrow> n)) = Inr st
          \<and> hook None equalityFn = Inl (getState st)
          \<and> useStore (Provider (Store_of reducer call st) scope) = Inr (getState st)
          \<and> hook (Some selector) equalityFn = Inr (selector (getState st))
          \<and> useSelector (Provider (Store_of reducer call st) scope) selector equalityFn =
              Inr (selector (getState st))"
proof (cases "createStore call initialState reducer
                (Some (case storeName_arg of None \<Rightarrow> ''zustand-store'' | Some n \<Rightarrow> n))")
  case (Inl e)
  then show ?thesis using assms by (simp add: create_def)
next
  case (Inr st)
  then have h: "hook = (\<lambda>selector equalityFn.
            useSyncExternalStore (subscribe_m (Store_of reducer call st))
              (\<lambda>_. case selector of
                      Some f \<Rightarrow> Inr (f (getState_m (Store_of reducer call st) ()))
                    | None \<Rightarrow> Inl (getState_m (Store_of reducer call st) ()))
              (\<lambda>_. case selector of
                      Some f \<Rightarrow> Inr (f (getState_m (Store_of reducer call st) ()))
                    | None \<Rightarrow> Inl (getState_m (Store_of reducer call st) ())))"
    using assms by (simp add: create_def)
  show ?thesis
    using Inr
    by (simp add: h useSyncExternalStore_def Store_of_def useStore_def useSelector_def
          useStoreContext_def useContext_def Provider_def)
qed

theorem create_accessor_witness:
  "\<exists>hook. create quiet john counterReducer None = Inr hook
      \<and> hook None None = Inl john
      \<and> hook (Some count) None = Inr 0
      \<and> useStore [Store_of counterReducer quiet
                     \<lparr>currentState = john, storeName = ''zustand-store'', listeners = []\<rparr>] = Inr john
      \<and> useSelector [Store_of counterReducer quiet
                     \<lparr>currentState = john, storeName = ''zustand-store'', listeners = []\<rparr>] count None = Inr 0"
proof -
  have cs: "createStore quiet john counterReducer (Some ''zustand-store'') =
              Inr \<lparr>currentState = john, storeName = ''zustand-store'', listeners = []\<rparr>"
    by (simp add: createStore_def dispatch_def applyReducer_def listeners_forEach_def counterReducer_def)
  obtain hook :: "(counter \<Rightarrow> int) option \<Rightarrow> (int \<Rightarrow> int \<Rightarrow> bool) option \<Rightarrow> counter + int"
    where h: "create quiet john counterReducer None = Inr hook"
    using cs by (simp add: create_def)
  show ?thesis
    using create_accessor[OF h, where equalityFn = None and selector = count and scope = "[]"] h cs
    by (auto simp: getState_def john_def Provider_def)
qed

text \<open>
  Claim C10. If the reducer throws on the initial state and \<^verbatim>\<open>{ type: '@@INIT' }\<close>,
  \<^verbatim>\<open>createStore\<close> throws that exception and returns no store.
\<close>

theorem createStore_fault:
  assumes "reducer initialState \<lparr>type = ''@@INIT'', props = []\<rparr> = Inl e"
  shows "createStore call initialState reducer initialName = Inl e"
  using assms by (simp add: createStore_def dispatch_def applyReducer_def)

theorem createStore_fault_witness:
  "createStore quiet john faultyReducer None = Inl (Error ''reducer failed'')"
  using createStore_fault[where reducer = faultyReducer and initialState = john
          and e = "Error ''reducer failed''" and call = quiet and initialName = None]
  by (simp add: faultyReducer_def)

end
